theory Spec2Isabelle
  imports Main
begin

section \<open>Data model of the dynamic mux (runtime/mux_dynamic.go)\<close>

text \<open>
  Path parameters resolved by a pattern: Go's \<open>map[string]string\<close>, kept as an
  association list so that results can be compared.
\<close>

type_synonym params = "(string \<times> string) list"

text \<open>
  Modelled from the spec: the type \<open>Pattern\<close> is declared outside the two source files;
  the mux uses it only through \<open>pat.String()\<close>, \<open>pat.Verb()\<close> and
  \<open>pat.Match(components, verb)\<close>. A pattern is therefore a record of these three
  capabilities; \<open>Match\<close> returns \<open>None\<close> where the Go method returns a non-nil error.
\<close>

record Pattern =
  String :: string
  Verb :: string
  Match :: "string list \<Rightarrow> string \<Rightarrow> params option"

text \<open>
  The Go struct \<open>handler{pat, h}\<close>. The handler function \<open>h\<close> is opaque (it is only
  ever called), so it is a value of an arbitrary type; the field is named \<open>hfunc\<close>.
\<close>

record 'h handler =
  pat :: Pattern
  hfunc :: 'h

text \<open>The table \<open>s.handlers\<close>: a Go map from the HTTP method to a slice of handlers.\<close>

type_synonym 'h handlers = "string \<rightharpoonup> 'h handler list"

text \<open>Reading \<open>s.handlers[meth]\<close>: a missing key gives the nil slice, of length 0.\<close>

definition lookup :: "'h handlers \<Rightarrow> string \<Rightarrow> 'h handler list" where
  "lookup tbl meth = (case tbl meth of None \<Rightarrow> [] | Some hs \<Rightarrow> hs)"

text \<open>
  The slice expression \<open>xs[lo:hi]\<close>. Go panics when the bounds are out of range;
  the panic is the value \<open>None\<close>.
\<close>

definition slice :: "'a list \<Rightarrow> nat \<Rightarrow> nat \<Rightarrow> 'a list option" where
  "slice xs lo hi =
     (if lo \<le> hi \<and> hi \<le> length xs then Some (take (hi - lo) (drop lo xs)) else None)"

section \<open>Handle and HandlerDeregister\<close>

text \<open>\<open>Handle\<close> (mux_dynamic.go, line 19): the new binding goes in front of the old ones.\<close>

definition Handle :: "string \<Rightarrow> Pattern \<Rightarrow> 'h \<Rightarrow> 'h handlers \<Rightarrow> 'h handlers" where
  "Handle meth p f tbl = tbl(meth \<mapsto> \<lparr>pat = p, hfunc = f\<rparr> # lookup tbl meth)"

text \<open>
  The loop of \<open>HandlerDeregister\<close> (mux_dynamic.go, lines 36 to 43), over the handlers
  not yet visited, with the loop index \<open>idx\<close> and the two variables \<open>offset\<close> and
  \<open>newHandlers\<close> that the loop updates.
\<close>

fun deregister_loop ::
  "string \<Rightarrow> 'h handler list \<Rightarrow> 'h handler list \<Rightarrow> nat \<Rightarrow> nat \<Rightarrow> 'h handler list
     \<Rightarrow> (nat \<times> 'h handler list) option" where
  "deregister_loop ps hs [] idx offset newHandlers = Some (offset, newHandlers)"
| "deregister_loop ps hs (x # rest) idx offset newHandlers =
     (if String (pat x) = ps then
        (case slice hs offset idx of
           None \<Rightarrow> None
         | Some seg \<Rightarrow> deregister_loop ps hs rest (idx + 1) (idx + 1) (newHandlers @ seg))
      else deregister_loop ps hs rest (idx + 1) offset newHandlers)"

text \<open>
  \<open>HandlerDeregister\<close> (mux_dynamic.go, line 27). The result is \<open>None\<close> when a slice
  expression panics, otherwise the table after the call.
\<close>

definition HandlerDeregister :: "string \<Rightarrow> Pattern \<Rightarrow> 'h handlers \<Rightarrow> 'h handlers option" where
  "HandlerDeregister meth p tbl =
     (let hs = lookup tbl meth in
      if length hs = 0 then Some tbl
      else
        (case deregister_loop (String p) hs hs 0 0 [] of
           None \<Rightarrow> None
         | Some (offset, newHandlers) \<Rightarrow>
             (case slice hs offset (length hs) of
                None \<Rightarrow> None
              | Some seg \<Rightarrow> Some (tbl(meth \<mapsto> newHandlers @ seg)))))"

text \<open>
  The second copy of the mux kept in runtime/mux_dynamic_test.go (after the test) has its
  own \<open>HandlerDeregister\<close> (lines 167 to 187 there); it is translated separately, loop
  and all, under the suffix \<open>_variant\<close>.
\<close>

fun deregister_loop_variant ::
  "string \<Rightarrow> 'h handler list \<Rightarrow> 'h handler list \<Rightarrow> nat \<Rightarrow> nat \<Rightarrow> 'h handler list
     \<Rightarrow> (nat \<times> 'h handler list) option" where
  "deregister_loop_variant ps hs [] idx offset newHandlers = Some (offset, newHandlers)"
| "deregister_loop_variant ps hs (x # rest) idx offset newHandlers =
     (if String (pat x) = ps then
        (case slice hs offset idx of
           None \<Rightarrow> None
         | Some seg \<Rightarrow>
             deregister_loop_variant ps hs rest (idx + 1) (idx + 1) (newHandlers @ seg))
      else deregister_loop_variant ps hs rest (idx + 1) offset newHandlers)"

definition HandlerDeregister_variant ::
  "string \<Rightarrow> Pattern \<Rightarrow> 'h handlers \<Rightarrow> 'h handlers option" where
  "HandlerDeregister_variant meth p tbl =
     (let hs = lookup tbl meth in
      if length hs = 0 then Some tbl
      else
        (case deregister_loop_variant (String p) hs hs 0 0 [] of
           None \<Rightarrow> None
         | Some (offset, newHandlers) \<Rightarrow>
             (case slice hs offset (length hs) of
                None \<Rightarrow> None
              | Some seg \<Rightarrow> Some (tbl(meth \<mapsto> newHandlers @ seg)))))"

text \<open>
  The same copy registers differently (lines 141 to 164 there): \<open>Handle\<close> first drops
  the bindings that have the new pattern's string and then appends the new binding.
\<close>

definition Handle_variant :: "string \<Rightarrow> Pattern \<Rightarrow> 'h \<Rightarrow> 'h handlers \<Rightarrow> 'h handlers option" where
  "Handle_variant meth p f tbl =
     (let hs = lookup tbl meth in
      (case deregister_loop_variant (String p) hs hs 0 0 [] of
         None \<Rightarrow> None
       | Some (offset, newHandlers) \<Rightarrow>
           if offset = 0 then Some (tbl(meth \<mapsto> hs @ [\<lparr>pat = p, hfunc = f\<rparr>]))
           else
             (case slice hs offset (length hs) of
                None \<Rightarrow> None
              | Some seg \<Rightarrow>
                  Some (tbl(meth \<mapsto> (newHandlers @ seg) @ [\<lparr>pat = p, hfunc = f\<rparr>])))))"

subsection \<open>Sequences of registrations and deregistrations\<close>

datatype 'h call = CallHandle string Pattern 'h | CallDeregister string Pattern

fun apply_call :: "'h call \<Rightarrow> 'h handlers \<Rightarrow> 'h handlers option" where
  "apply_call (CallHandle meth p f) tbl = Some (Handle meth p f tbl)"
| "apply_call (CallDeregister meth p) tbl = HandlerDeregister meth p tbl"

fun run_calls :: "'h call list \<Rightarrow> 'h handlers \<Rightarrow> 'h handlers option" where
  "run_calls [] tbl = Some tbl"
| "run_calls (c # cs) tbl =
     (case apply_call c tbl of None \<Rightarrow> None | Some tbl' \<Rightarrow> run_calls cs tbl')"

text \<open>The pattern strings bound under a method, in scan order.\<close>

definition pattern_strings :: "'h handlers \<Rightarrow> string \<Rightarrow> string list" where
  "pattern_strings tbl meth = map (\<lambda>x. String (pat x)) (lookup tbl meth)"

text \<open>
  A sequence of calls registers only new patterns when each \<open>Handle\<close> in it is issued at
  a moment where its method has no binding with the pattern's string.
\<close>

fun registers_new :: "'h call list \<Rightarrow> 'h handlers \<Rightarrow> bool" where
  "registers_new [] tbl = True"
| "registers_new (c # cs) tbl =
     ((case c of
         CallHandle meth p f \<Rightarrow> String p \<notin> set (pattern_strings tbl meth)
       | CallDeregister meth p \<Rightarrow> True)
      \<and> (case apply_call c tbl of None \<Rightarrow> False | Some tbl' \<Rightarrow> registers_new cs tbl'))"

section \<open>ServeHTTP\<close>

subsection \<open>Strings\<close>

text \<open>Go strings are byte sequences; \<open>len\<close> counts bytes, as \<open>length\<close> counts chars.\<close>

definition HasPrefix :: "string \<Rightarrow> string \<Rightarrow> bool" where
  "HasPrefix s prefix = (length prefix \<le> length s \<and> take (length prefix) s = prefix)"

definition HasSuffix :: "string \<Rightarrow> string \<Rightarrow> bool" where
  "HasSuffix s suffix =
     (length suffix \<le> length s \<and> drop (length s - length suffix) s = suffix)"

text \<open>
  \<open>strings.Split(s, sep)\<close> for a separator of one byte: the pieces between the
  separators, always at least one piece.
\<close>

fun Split :: "string \<Rightarrow> char \<Rightarrow> string list" where
  "Split [] sep = [[]]"
| "Split (c # cs) sep =
     (if c = sep then [] # Split cs sep
      else (case Split cs sep of [] \<Rightarrow> [[c]] | x # xs \<Rightarrow> (c # x) # xs))"

subsection \<open>Requests, collaborators, results\<close>

text \<open>
  What \<open>ServeHTTP\<close> reads of the request: \<open>r.Method\<close>, \<open>r.URL.Path\<close> and the value of
  the header X-HTTP-Method-Override (the empty string when the header is absent).
\<close>

record request =
  Method :: string
  URLPath :: string
  MethodOverride :: string

text \<open>
  The functions \<open>ServeHTTP\<close> calls that are declared outside the two source files:
  \<open>s.isPathLengthFallback(r)\<close> of the embedded ServeMux, \<open>r.ParseForm()\<close> (\<open>None\<close>
  for a nil error, otherwise the text of \<open>err.Error()\<close>) and \<open>strings.ToUpper\<close>.
\<close>

record env =
  isPathLengthFallback :: "request \<Rightarrow> bool"
  ParseForm :: "request \<Rightarrow> string option"
  ToUpper :: "string \<Rightarrow> string"

datatype http_status = StatusBadRequest | StatusNotFound | StatusMethodNotAllowed

text \<open>
  How a call of \<open>ServeHTTP\<close> ends: the handler of a binding is called with the request
  and the path parameters; \<open>s.routingErrorHandler\<close> is called with an HTTP status;
  \<open>s.errorHandler\<close> is called with \<open>status.Error(codes.InvalidArgument, msg)\<close>; or the
  Go runtime panics on an index out of range.
\<close>

datatype 'h outcome =
    Invoked 'h request params
  | RoutingError http_status
  | InvalidArgument string
  | Panic

text \<open>
  The calls made on the collaborators, in the order they are made: \<open>r.ParseForm()\<close> on
  the request as it is at that moment, and \<open>h.pat.Match(components, verb)\<close>, recorded
  with the pattern's string and the two arguments.
\<close>

datatype event = ParseFormCall request | MatchCall string "string list" string

subsection \<open>The method override (lines 62 to 70)\<close>

definition method_override :: "env \<Rightarrow> request \<Rightarrow> event list \<times> (string + request)" where
  "method_override e r =
     (let override = MethodOverride r in
      if override \<noteq> [] \<and> isPathLengthFallback e r then
        (let r' = r\<lparr>Method := ToUpper e override\<rparr> in
         (case ParseForm e r' of
            Some msg \<Rightarrow> ([ParseFormCall r'], Inl msg)
          | None \<Rightarrow> ([ParseFormCall r'], Inr r')))
      else ([], Inr r))"

subsection \<open>The verb of one candidate (lines 85 to 100)\<close>

text \<open>
  The step computes \<open>idx\<close> from the candidate's verb and the last component. With
  \<open>idx = 0\<close> the request is answered NotFound; with \<open>idx > 0\<close> the last component is
  overwritten with its part before the colon and \<open>verb\<close> with the part after it;
  otherwise both stay as they are.
\<close>

datatype stripped = LeadingColon | Args "string list" string | IndexPanic

definition verb_index :: "string \<Rightarrow> string \<Rightarrow> int" where
  "verb_index patVerb lastComponent =
     (if patVerb \<noteq> [] \<and> HasSuffix lastComponent (CHR '':'' # patVerb)
      then int (length lastComponent) - int (length patVerb) - 1 else - 1)"

definition strip_verb :: "string \<Rightarrow> string list \<Rightarrow> string \<Rightarrow> stripped" where
  "strip_verb patVerb components verb =
     (let l = length components in
      if l = 0 then IndexPanic
      else
        (let lastComponent = components ! (l - 1);
             idx = verb_index patVerb lastComponent in
         if idx = 0 then LeadingColon
         else if idx > 0 then
           (case (slice lastComponent 0 (nat idx),
                  slice lastComponent (nat idx + 1) (length lastComponent)) of
              (Some c, Some v) \<Rightarrow> Args (components[l - 1 := c]) v
            | _ \<Rightarrow> IndexPanic)
         else Args components verb))"

subsection \<open>The scan of the request's method (lines 76 to 109)\<close>

datatype 'h scan = Return "'h outcome" | Continue "string list" string

fun primary_scan ::
  "request \<Rightarrow> 'h handler list \<Rightarrow> string list \<Rightarrow> string \<Rightarrow> event list \<times> 'h scan" where
  "primary_scan r [] components verb = ([], Continue components verb)"
| "primary_scan r (x # rest) components verb =
     (case strip_verb (Verb (pat x)) components verb of
        IndexPanic \<Rightarrow> ([], Return Panic)
      | LeadingColon \<Rightarrow> ([], Return (RoutingError StatusNotFound))
      | Args components' verb' \<Rightarrow>
          (case Match (pat x) components' verb' of
             None \<Rightarrow>
               (case primary_scan r rest components' verb' of
                  (tr, res) \<Rightarrow> (MatchCall (String (pat x)) components' verb' # tr, res))
           | Some pathParams \<Rightarrow>
               ([MatchCall (String (pat x)) components' verb'],
                Return (Invoked (hfunc x) r pathParams))))"

subsection \<open>The scan of the other methods (lines 113 to 139)\<close>

text \<open>The inner loop, over the handlers of one method other than the request's.\<close>

fun fallback_handlers ::
  "env \<Rightarrow> request \<Rightarrow> 'h handler list \<Rightarrow> string list \<Rightarrow> string
     \<Rightarrow> event list \<times> 'h outcome option" where
  "fallback_handlers e r [] components verb = ([], None)"
| "fallback_handlers e r (x # rest) components verb =
     (case Match (pat x) components verb of
        None \<Rightarrow>
          (case fallback_handlers e r rest components verb of
             (tr, res) \<Rightarrow> (MatchCall (String (pat x)) components verb # tr, res))
      | Some pathParams \<Rightarrow>
          if isPathLengthFallback e r then
            (case ParseForm e r of
               Some msg \<Rightarrow>
                 ([MatchCall (String (pat x)) components verb, ParseFormCall r],
                  Some (InvalidArgument msg))
             | None \<Rightarrow>
                 ([MatchCall (String (pat x)) components verb, ParseFormCall r],
                  Some (Invoked (hfunc x) r pathParams)))
          else
            ([MatchCall (String (pat x)) components verb],
             Some (RoutingError StatusMethodNotAllowed)))"

text \<open>
  The outer loop \<open>for m, handlers := range s.handlers\<close>. Go leaves the order in which
  \<open>range\<close> visits the keys of a map open, so the order is an argument: the list of the
  keys still to visit.
\<close>

fun fallback_methods ::
  "env \<Rightarrow> 'h handlers \<Rightarrow> request \<Rightarrow> string list \<Rightarrow> string list \<Rightarrow> string
     \<Rightarrow> event list \<times> 'h outcome option" where
  "fallback_methods e tbl r [] components verb = ([], None)"
| "fallback_methods e tbl r (m # ms) components verb =
     (if m = Method r then fallback_methods e tbl r ms components verb
      else
        (case fallback_handlers e r (lookup tbl m) components verb of
           (tr, Some out) \<Rightarrow> (tr, Some out)
         | (tr, None) \<Rightarrow>
             (case fallback_methods e tbl r ms components verb of
                (tr', res) \<Rightarrow> (tr @ tr', res))))"


subsection \<open>ServeHTTP (line 50)\<close>

text \<open>
  The part of \<open>ServeHTTP\<close> after the method override (lines 72 to 144): the scan of the
  request's method starts with the empty verb; when it ends without a result, the other
  methods are scanned with the components and the verb it left; when nothing matches,
  the request is answered NotFound.
\<close>

definition lookup_handlers ::
  "env \<Rightarrow> string list \<Rightarrow> 'h handlers \<Rightarrow> request \<Rightarrow> string list \<Rightarrow> event list \<times> 'h outcome" where
  "lookup_handlers e order tbl r components =
     (case primary_scan r (lookup tbl (Method r)) components [] of
        (tr1, Return out) \<Rightarrow> (tr1, out)
      | (tr1, Continue components' verb) \<Rightarrow>
          (case fallback_methods e tbl r order components' verb of
             (tr2, Some out) \<Rightarrow> (tr1 @ tr2, out)
           | (tr2, None) \<Rightarrow> (tr1 @ tr2, RoutingError StatusNotFound)))"

text \<open>
  \<open>ServeHTTP\<close>, with the order in which \<open>range\<close> visits the methods as an argument.
  The result is the list of calls made on the collaborators and the way the call ends.
\<close>

definition ServeHTTP ::
  "env \<Rightarrow> string list \<Rightarrow> 'h handlers \<Rightarrow> request \<Rightarrow> event list \<times> 'h outcome" where
  "ServeHTTP e order tbl r =
     (let path = URLPath r in
      if \<not> HasPrefix path ''/'' then ([], RoutingError StatusBadRequest)
      else
        (let components = Split (drop 1 path) CHR ''/'' in
         (case method_override e r of
            (tr0, Inl msg) \<Rightarrow> (tr0, InvalidArgument msg)
          | (tr0, Inr r') \<Rightarrow>
              (case lookup_handlers e order tbl r' components of
                 (tr, out) \<Rightarrow> (tr0 @ tr, out)))))"

text \<open>
  The bindings of the methods other than \<open>meth\<close>, in the order in which the scan of the
  other methods visits them.
\<close>

definition other_bindings :: "'h handlers \<Rightarrow> string \<Rightarrow> string list \<Rightarrow> 'h handler list" where
  "other_bindings tbl meth order = concat (map (lookup tbl) (filter (\<lambda>m. m \<noteq> meth) order))"


text \<open>Whether a call on a collaborator is a call of \<open>Match\<close>.\<close>

fun is_match_call :: "event \<Rightarrow> bool" where
  "is_match_call (MatchCall s c v) = True"
| "is_match_call (ParseFormCall r) = False"

section \<open>Example patterns\<close>

text \<open>
  A pattern for the examples: it has the given string and verb, and matches exactly the
  given components together with its own verb, binding no parameter.
\<close>

definition literal_pattern :: "string \<Rightarrow> string list \<Rightarrow> string \<Rightarrow> Pattern" where
  "literal_pattern s cs v =
     \<lparr>String = s, Verb = v,
      Match = (\<lambda>components verb. if components = cs \<and> verb = v then Some [] else None)\<rparr>"


text \<open>A handler of the examples is a number; \<open>binding s cs v n\<close> binds handler \<open>n\<close>.\<close>

definition binding :: "string \<Rightarrow> string list \<Rightarrow> string \<Rightarrow> nat \<Rightarrow> nat handler" where
  "binding s cs v n = \<lparr>pat = literal_pattern s cs v, hfunc = n\<rparr>"

text \<open>
  Collaborators for the examples: the path-length-fallback condition is the given
  constant, \<open>ParseForm\<close> returns the given result, and \<open>ToUpper\<close> knows the header
  values the examples use.
\<close>

definition example_env :: "bool \<Rightarrow> string option \<Rightarrow> env" where
  "example_env fallback parsed =
     \<lparr>isPathLengthFallback = (\<lambda>r. fallback), ParseForm = (\<lambda>r. parsed),
      ToUpper = (\<lambda>s. if s = ''put'' then ''PUT'' else if s = ''post'' then ''POST'' else s)\<rparr>"

definition example_request :: "string \<Rightarrow> string \<Rightarrow> string \<Rightarrow> request" where
  "example_request m path override = \<lparr>Method = m, URLPath = path, MethodOverride = override\<rparr>"

section \<open>Lemmas on HandlerDeregister and Handle\<close>

lemma deregister_loop_inv:
  assumes "hs = seen @ rest" and "idx = length seen" and "offset \<le> idx"
    and "newHandlers @ take (idx - offset) (drop offset hs)
           = filter (\<lambda>x. String (pat x) \<noteq> ps) seen"
  shows "\<exists>offset' newHandlers'.
           deregister_loop ps hs rest idx offset newHandlers = Some (offset', newHandlers')
           \<and> offset' \<le> length hs
           \<and> newHandlers' @ drop offset' hs = filter (\<lambda>x. String (pat x) \<noteq> ps) hs"
  using assms
proof (induction rest arbitrary: seen idx offset newHandlers)
  case Nil
  then show ?case by simp
next
  case (Cons x rest)
  have hs: "hs = (seen @ [x]) @ rest" using Cons.prems(1) by simp
  have len: "idx + 1 = length (seen @ [x])" using Cons.prems(2) by simp
  show ?case
  proof (cases "String (pat x) = ps")
    case True
    have sl: "slice hs offset idx = Some (take (idx - offset) (drop offset hs))"
      using Cons.prems by (simp add: slice_def)
    have inv: "(newHandlers @ take (idx - offset) (drop offset hs))
                 @ take ((idx + 1) - (idx + 1)) (drop (idx + 1) hs)
               = filter (\<lambda>x. String (pat x) \<noteq> ps) (seen @ [x])"
      using Cons.prems(4) True by simp
    from Cons.IH [OF hs len _ inv] True sl show ?thesis by simp
  next
    case False
    have nth: "drop idx hs = x # rest" using Cons.prems(1,2) by simp
    have "take (idx + 1 - offset) (drop offset hs)
            = take (idx - offset) (drop offset hs) @ [x]"
    proof -
      have "drop offset hs = drop offset seen @ x # rest"
        using Cons.prems(1,2,3) by simp
      moreover have "length (drop offset seen) = idx - offset"
        using Cons.prems(2) by simp
      ultimately show ?thesis using Cons.prems(3) by simp
    qed
    then have inv: "newHandlers @ take (idx + 1 - offset) (drop offset hs)
               = filter (\<lambda>x. String (pat x) \<noteq> ps) (seen @ [x])"
      using Cons.prems(4) False by simp
    have le: "offset \<le> idx + 1" using Cons.prems(3) by simp
    from Cons.IH [OF hs len le inv] False show ?thesis by simp
  qed
qed

lemma HandlerDeregister_eq:
  "HandlerDeregister meth p tbl =
     Some (if lookup tbl meth = [] then tbl
           else tbl(meth \<mapsto> filter (\<lambda>x. String (pat x) \<noteq> String p) (lookup tbl meth)))"
proof (cases "lookup tbl meth = []")
  case True
  then show ?thesis by (simp add: HandlerDeregister_def)
next
  case False
  obtain offset' newHandlers' where
    loop: "deregister_loop (String p) (lookup tbl meth) (lookup tbl meth) 0 0 []
             = Some (offset', newHandlers')"
    and le: "offset' \<le> length (lookup tbl meth)"
    and res: "newHandlers' @ drop offset' (lookup tbl meth)
                = filter (\<lambda>x. String (pat x) \<noteq> String p) (lookup tbl meth)"
    using deregister_loop_inv [of "lookup tbl meth" "[]" "lookup tbl meth" 0 0 "[]" "String p"]
    by auto
  have "slice (lookup tbl meth) offset' (length (lookup tbl meth))
          = Some (drop offset' (lookup tbl meth))"
    using le by (simp add: slice_def)
  with False loop res show ?thesis
    by (simp add: HandlerDeregister_def Let_def)
qed

lemma deregister_loop_variant_eq:
  "deregister_loop_variant ps hs rest idx offset newHandlers
     = deregister_loop ps hs rest idx offset newHandlers"
  by (induction rest arbitrary: idx offset newHandlers) (auto split: option.splits)

lemma Handle_variant_eq:
  "Handle_variant meth p f tbl =
     Some (tbl(meth \<mapsto> filter (\<lambda>x. String (pat x) \<noteq> String p) (lookup tbl meth)
                           @ [\<lparr>pat = p, hfunc = f\<rparr>]))"
proof -
  let ?hs = "lookup tbl meth"
  obtain offset' newHandlers' where
    loop: "deregister_loop (String p) ?hs ?hs 0 0 [] = Some (offset', newHandlers')"
    and le: "offset' \<le> length ?hs"
    and res: "newHandlers' @ drop offset' ?hs = filter (\<lambda>x. String (pat x) \<noteq> String p) ?hs"
    using deregister_loop_inv [of ?hs "[]" ?hs 0 0 "[]" "String p"] by auto
  have sl: "slice ?hs offset' (length ?hs) = Some (drop offset' ?hs)"
    using le by (simp add: slice_def)
  show ?thesis
  proof (cases "offset' = 0")
    case True
    have "length (newHandlers' @ ?hs) \<le> length ?hs"
      using res True length_filter_le [of "\<lambda>x. String (pat x) \<noteq> String p" ?hs] by simp
    then have "filter (\<lambda>x. String (pat x) \<noteq> String p) ?hs = ?hs"
      using res True by simp
    with True loop show ?thesis
      by (simp add: Handle_variant_def Let_def deregister_loop_variant_eq)
  next
    case False
    have "Handle_variant meth p f tbl
            = Some (tbl(meth \<mapsto> (newHandlers' @ drop offset' ?hs) @ [\<lparr>pat = p, hfunc = f\<rparr>]))"
      using False loop sl
      by (simp add: Handle_variant_def Let_def deregister_loop_variant_eq)
    then show ?thesis
      by (simp only: res)
  qed
qed

text \<open>
  The copy of \<open>Handle\<close> in mux_dynamic_test.go keeps a method free of duplicate pattern
  strings; the \<open>Handle\<close> of mux_dynamic.go does not look for them.
\<close>

lemma Handle_variant_no_duplicates:
  assumes "distinct (pattern_strings tbl m)"
    and "Handle_variant meth p f tbl = Some tbl'"
  shows "distinct (pattern_strings tbl' m)"
proof -
  have "map (\<lambda>x. String (pat x)) (filter (\<lambda>x. String (pat x) \<noteq> String p) hs)
          = filter (\<lambda>s. s \<noteq> String p) (map (\<lambda>x. String (pat x)) hs)" for hs :: "'a handler list"
    by (induction hs) auto
  then show ?thesis
    using assms
    by (auto simp: Handle_variant_eq pattern_strings_def lookup_def split: if_splits)
qed

lemma pattern_strings_Handle:
  "pattern_strings (Handle meth p f tbl) m
     = (if m = meth then String p # pattern_strings tbl meth else pattern_strings tbl m)"
  by (simp add: pattern_strings_def Handle_def lookup_def)

lemma pattern_strings_empty: "pattern_strings Map.empty m = []"
  by (simp add: pattern_strings_def lookup_def)

lemma pattern_strings_HandlerDeregister:
  assumes "HandlerDeregister meth p tbl = Some tbl'"
  shows "pattern_strings tbl' m
           = (if m = meth then filter (\<lambda>s. s \<noteq> String p) (pattern_strings tbl meth)
              else pattern_strings tbl m)"
proof -
  have "filter (\<lambda>s. s \<noteq> String p) (map (\<lambda>x. String (pat x)) hs)
          = map (\<lambda>x. String (pat x)) (filter (\<lambda>x. String (pat x) \<noteq> String p) hs)" for hs :: "'a handler list"
    by (induction hs) auto
  then show ?thesis
    using assms
    by (auto simp: HandlerDeregister_eq pattern_strings_def lookup_def split: if_splits)
qed

section \<open>Lemmas on the verb step\<close>


lemma HasSuffix_iff: "HasSuffix s suffix \<longleftrightarrow> (\<exists>pre. s = pre @ suffix)"
proof
  assume "HasSuffix s suffix"
  then have "s = take (length s - length suffix) s @ suffix"
    by (metis HasSuffix_def append_take_drop_id)
  then show "\<exists>pre. s = pre @ suffix" ..
next
  assume "\<exists>pre. s = pre @ suffix"
  then show "HasSuffix s suffix" by (auto simp: HasSuffix_def)
qed


lemma update_last: "xs \<noteq> [] \<Longrightarrow> xs[length xs - Suc 0 := x] = butlast xs @ [x]"
  by (induction xs rule: rev_induct) simp_all

lemma nth_last: "xs \<noteq> [] \<Longrightarrow> xs ! (length xs - Suc 0) = last xs"
  by (simp add: last_conv_nth)

lemma strip_verb_eq:
  assumes "components \<noteq> []"
  shows "strip_verb patVerb components verb =
     (if patVerb \<noteq> [] \<and> HasSuffix (last components) (CHR '':'' # patVerb) then
        (if length (last components) = Suc (length patVerb) then LeadingColon
         else Args (butlast components
                     @ [take (length (last components) - Suc (length patVerb)) (last components)])
                patVerb)
      else Args components verb)"
proof (cases "patVerb \<noteq> [] \<and> HasSuffix (last components) (CHR '':'' # patVerb)")
  case False
  then show ?thesis
    using assms by (auto simp: strip_verb_def verb_index_def Let_def nth_last)
next
  case True
  then obtain pre where lc: "last components = pre @ CHR '':'' # patVerb"
    by (auto simp: HasSuffix_iff)
  have idx: "verb_index patVerb (last components) = int (length pre)"
    using True lc by (simp add: verb_index_def)
  show ?thesis
  proof (cases "pre = []")
    case True
    with idx lc \<open>patVerb \<noteq> [] \<and> _\<close> assms show ?thesis
      by (simp add: strip_verb_def Let_def nth_last)
  next
    case False
    have "slice (last components) 0 (length pre) = Some pre"
      using lc by (simp add: slice_def)
    moreover have "slice (last components) (length pre + 1) (length (last components)) = Some patVerb"
      using lc by (simp add: slice_def)
    ultimately show ?thesis
      using False idx lc \<open>patVerb \<noteq> [] \<and> _\<close> assms
      by (simp add: strip_verb_def Let_def nth_last update_last)
  qed
qed

lemma strip_verb_shorter:
  assumes "c \<noteq> []" and "strip_verb patVerb c v = Args c' v'"
  shows "c' \<noteq> [] \<and> length (last c') \<le> length (last c)"
  using assms by (auto simp: strip_verb_eq split: if_splits)



text \<open>
  Seen alone, the step does tell the verb \<open>v:1\<close> from the verb \<open>1\<close>: on a last component
  \<open>res:v:1\<close> it leaves \<open>res\<close> and passes the verb \<open>v:1\<close>.
\<close>

lemma strip_verb_colon_verb:
  "strip_verb ''v:1'' (cs @ [''res:v:1'']) verb = Args (cs @ [''res'']) ''v:1''"
  by (simp add: strip_verb_eq HasSuffix_def)

section \<open>Lemmas on the two scans\<close>

lemma fallback_handlers_append:
  "fallback_handlers e r (xs @ ys) c v =
     (case fallback_handlers e r xs c v of
        (tr, Some out) \<Rightarrow> (tr, Some out)
      | (tr, None) \<Rightarrow>
          (case fallback_handlers e r ys c v of (tr', res) \<Rightarrow> (tr @ tr', res)))"
  by (induction xs) (auto split: option.splits prod.splits)

lemma fallback_methods_eq:
  "fallback_methods e tbl r order c v
     = fallback_handlers e r (other_bindings tbl (Method r) order) c v"
proof (induction order)
  case Nil
  then show ?case by (simp add: other_bindings_def)
next
  case (Cons m ms)
  show ?case
  proof (cases "m = Method r")
    case True
    with Cons show ?thesis by (simp add: other_bindings_def)
  next
    case False
    have "other_bindings tbl (Method r) (m # ms)
            = lookup tbl m @ other_bindings tbl (Method r) ms"
      using False by (simp add: other_bindings_def)
    with False Cons show ?thesis
      by (simp add: fallback_handlers_append split: prod.splits option.splits)
  qed
qed



lemma fallback_handlers_trace:
  "ev \<in> set (fst (fallback_handlers e r hs c v))
     \<Longrightarrow> ev = ParseFormCall r \<or> (\<exists>s. ev = MatchCall s c v)"
  by (induction hs) (auto split: option.splits prod.splits if_splits)


lemma primary_scan_append:
  "primary_scan r (xs @ ys) c v =
     (case primary_scan r xs c v of
        (tr, Return out) \<Rightarrow> (tr, Return out)
      | (tr, Continue c1 v1) \<Rightarrow>
          (case primary_scan r ys c1 v1 of (tr', res) \<Rightarrow> (tr @ tr', res)))"
  by (induction xs arbitrary: c v)
     (auto split: option.splits prod.splits stripped.splits scan.splits)

lemma primary_scan_unstripped:
  assumes "c \<noteq> []"
    and "\<forall>y \<in> set hs. \<not> (Verb (pat y) \<noteq> [] \<and> HasSuffix (last c) (CHR '':'' # Verb (pat y)))"
  shows "(\<forall>ev \<in> set (fst (primary_scan r hs c v)). \<exists>s. ev = MatchCall s c v)
         \<and> (snd (primary_scan r hs c v) = Continue c v
              \<or> (\<exists>f pathParams. snd (primary_scan r hs c v) = Return (Invoked f r pathParams)))"
  using assms
  by (induction hs) (auto simp: strip_verb_eq split: option.splits prod.splits)


lemma primary_scan_bound:
  assumes "c \<noteq> []" and "length (last c) \<le> n"
  shows "(\<forall>ev \<in> set (fst (primary_scan r hs c v)).
            \<exists>s c1 v1. ev = MatchCall s c1 v1 \<and> length (last c1) \<le> n)
         \<and> (\<forall>c2 v2. snd (primary_scan r hs c v) = Continue c2 v2 \<longrightarrow> length (last c2) \<le> n)"
  using assms
proof (induction hs arbitrary: c v)
  case Nil
  then show ?case by simp
next
  case (Cons x hs)
  show ?case
  proof (cases "strip_verb (Verb (pat x)) c v")
    case LeadingColon
    then show ?thesis by simp
  next
    case (Args c' v')
    from strip_verb_shorter [OF Cons.prems(1) Args] Cons.prems(2)
    have ne: "c' \<noteq> []" and le: "length (last c') \<le> n" by auto
    from Cons.IH [OF ne le, of v'] Args le show ?thesis
      by (auto split: option.splits prod.splits)
  next
    case IndexPanic
    then show ?thesis by simp
  qed
qed

lemma primary_scan_starts_with_match:
  "fst (primary_scan r hs c v) = [] \<or> is_match_call (hd (fst (primary_scan r hs c v)))"
  by (cases hs) (auto split: stripped.splits option.splits prod.splits)

lemma fallback_handlers_starts_with_match:
  "fst (fallback_handlers e r hs c v) = [] \<or> is_match_call (hd (fst (fallback_handlers e r hs c v)))"
  by (cases hs) (auto split: option.splits prod.splits)

section \<open>Lemmas on ServeHTTP\<close>

lemma ServeHTTP_lookup:
  assumes "HasPrefix (URLPath r) ''/''" and "method_override e r = (tr0, Inr r')"
  shows "ServeHTTP e order tbl r =
           (tr0 @ fst (lookup_handlers e order tbl r' (Split (drop 1 (URLPath r)) CHR ''/'')),
            snd (lookup_handlers e order tbl r' (Split (drop 1 (URLPath r)) CHR ''/'')))"
  using assms by (simp add: ServeHTTP_def Let_def split: prod.splits)

lemma lookup_handlers_fallback:
  assumes "primary_scan r (lookup tbl (Method r)) cs [] = (tr1, Continue c v)"
  shows "lookup_handlers e order tbl r cs =
           (tr1 @ fst (fallback_handlers e r (other_bindings tbl (Method r) order) c v),
            (case snd (fallback_handlers e r (other_bindings tbl (Method r) order) c v) of
               Some out \<Rightarrow> out
             | None \<Rightarrow> RoutingError StatusNotFound))"
  using assms
  by (simp add: lookup_handlers_def fallback_methods_eq split: prod.splits option.splits)

lemma lookup_handlers_return:
  assumes "primary_scan r (lookup tbl (Method r)) cs [] = (tr1, Return out)"
  shows "lookup_handlers e order tbl r cs = (tr1, out)"
  using assms by (simp add: lookup_handlers_def)

lemma lookup_handlers_starts_with_match:
  "fst (lookup_handlers e order tbl r cs) = []
   \<or> is_match_call (hd (fst (lookup_handlers e order tbl r cs)))"
proof (cases "primary_scan r (lookup tbl (Method r)) cs []")
  case (Pair tr1 res)
  show ?thesis
  proof (cases res)
    case (Return out)
    with Pair primary_scan_starts_with_match [of r "lookup tbl (Method r)" cs "[]"]
    show ?thesis by (simp add: lookup_handlers_return)
  next
    case (Continue c v)
    with Pair primary_scan_starts_with_match [of r "lookup tbl (Method r)" cs "[]"]
      fallback_handlers_starts_with_match [of e r "other_bindings tbl (Method r) order" c v]
    show ?thesis by (auto simp: lookup_handlers_fallback hd_append)
  qed
qed

section \<open>Deregistration\<close>

text \<open>
  C1 (deregister exactness). \<open>HandlerDeregister meth p\<close> never panics. In the table it
  returns, the bindings of \<open>meth\<close> are the former ones without those whose pattern string
  is \<open>String p\<close>, in their former order; every other method keeps what it had; and when
  \<open>meth\<close> has no binding, or none with that string, the table is the one before the call.
\<close>

theorem HandlerDeregister_exact:
  "\<exists>tbl'. HandlerDeregister meth p tbl = Some tbl'
     \<and> lookup tbl' meth = filter (\<lambda>x. String (pat x) \<noteq> String p) (lookup tbl meth)
     \<and> (\<forall>m. m \<noteq> meth \<longrightarrow> tbl' m = tbl m)
     \<and> (lookup tbl meth = [] \<or> (\<forall>x \<in> set (lookup tbl meth). String (pat x) \<noteq> String p)
          \<longrightarrow> tbl' = tbl)"
proof (cases "lookup tbl meth = []")
  case True
  then show ?thesis by (simp add: HandlerDeregister_eq)
next
  case False
  then have stored: "tbl meth = Some (lookup tbl meth)"
    by (auto simp: lookup_def split: option.splits)
  have same: "tbl(meth \<mapsto> lookup tbl meth) = tbl"
    using stored by (simp add: map_upd_triv)
  have keep: "\<forall>x \<in> set (lookup tbl meth). String (pat x) \<noteq> String p
                \<Longrightarrow> filter (\<lambda>x. String (pat x) \<noteq> String p) (lookup tbl meth) = lookup tbl meth"
    by simp
  show ?thesis
    using False same keep by (auto simp: HandlerDeregister_eq lookup_def)
qed

theorem HandlerDeregister_exact_witness:
  "\<exists>tbl'. HandlerDeregister ''GET'' (literal_pattern ''/a/b/c'' [''a'', ''b'', ''c''] [])
             [''GET'' \<mapsto> [binding ''/a'' [''a''] [] 1, binding ''/a/b'' [''a'', ''b''] [] 2,
                           binding ''/a/b/c'' [''a'', ''b'', ''c''] [] 3,
                           binding ''/a/b/c'' [''a'', ''b'', ''c''] [] 4,
                           binding ''/a/b/c/d'' [''a'', ''b'', ''c'', ''d''] [] 5],
              ''POST'' \<mapsto> [binding ''/a/b/c'' [''a'', ''b'', ''c''] [] 6]] = Some tbl'
     \<and> map hfunc (lookup tbl' ''GET'') = [1, 2, 5]
     \<and> map hfunc (lookup tbl' ''POST'') = [6]"
  using HandlerDeregister_exact
    [of "''GET''" "literal_pattern ''/a/b/c'' [''a'', ''b'', ''c''] []"
        "[''GET'' \<mapsto> [binding ''/a'' [''a''] [] 1, binding ''/a/b'' [''a'', ''b''] [] 2,
                           binding ''/a/b/c'' [''a'', ''b'', ''c''] [] 3,
                           binding ''/a/b/c'' [''a'', ''b'', ''c''] [] 4,
                           binding ''/a/b/c/d'' [''a'', ''b'', ''c'', ''d''] [] 5],
              ''POST'' \<mapsto> [binding ''/a/b/c'' [''a'', ''b'', ''c''] [] 6]]"]
  by (auto simp: lookup_def binding_def literal_pattern_def)

text \<open>
  C9 (deregister variant equivalence). On every table, method and pattern, the
  \<open>HandlerDeregister\<close> of mux_dynamic.go and the one of the copy in mux_dynamic_test.go
  return the same table, hence the same bindings under every method.
\<close>

theorem HandlerDeregister_variant_same:
  "HandlerDeregister_variant meth p tbl = HandlerDeregister meth p tbl"
  by (simp add: HandlerDeregister_variant_def HandlerDeregister_def Let_def
      deregister_loop_variant_eq)

section \<open>Registration and duplicates\<close>

text \<open>
  C2 (no-duplicate invariant), as amended. \<open>Handle\<close> puts the new binding in front and
  removes nothing, so the invariant needs the registrations to be of new patterns: from a
  table without duplicates, a sequence of \<open>Handle\<close> and \<open>HandlerDeregister\<close> calls in which
  every \<open>Handle\<close> is issued when its method has no binding with the pattern's string runs
  without panic and leaves, under every method, at most one binding per pattern string.
\<close>

theorem no_duplicates_registering_new:
  assumes "\<forall>meth. distinct (pattern_strings tbl meth)" and "registers_new cs tbl"
  shows "\<exists>tbl'. run_calls cs tbl = Some tbl' \<and> (\<forall>meth. distinct (pattern_strings tbl' meth))"
  using assms
proof (induction cs arbitrary: tbl)
  case Nil
  then show ?case by simp
next
  case (Cons c cs)
  show ?case
  proof (cases c)
    case (CallHandle meth p f)
    have new: "String p \<notin> set (pattern_strings tbl meth)"
      and rest: "registers_new cs (Handle meth p f tbl)"
      using Cons.prems(2) CallHandle by simp_all
    have "\<forall>m. distinct (pattern_strings (Handle meth p f tbl) m)"
      using Cons.prems(1) new by (simp add: pattern_strings_Handle)
    from Cons.IH [OF this rest] CallHandle show ?thesis by simp
  next
    case (CallDeregister meth p)
    obtain tbl1 where step: "HandlerDeregister meth p tbl = Some tbl1"
      by (simp add: HandlerDeregister_eq)
    have rest: "registers_new cs tbl1"
      using Cons.prems(2) CallDeregister step by simp
    have "\<forall>m. distinct (pattern_strings tbl1 m)"
      using Cons.prems(1) by (simp add: pattern_strings_HandlerDeregister [OF step])
    from Cons.IH [OF this rest] CallDeregister step show ?thesis by simp
  qed
qed

theorem no_duplicates_registering_new_witness:
  "\<exists>tbl'. run_calls [CallHandle ''GET'' (literal_pattern ''/a'' [''a''] []) (1::nat),
                       CallHandle ''GET'' (literal_pattern ''/b'' [''b''] []) 2,
                       CallDeregister ''GET'' (literal_pattern ''/a'' [''a''] []),
                       CallHandle ''GET'' (literal_pattern ''/a'' [''a''] []) 3] Map.empty
             = Some tbl'
          \<and> (\<forall>meth. distinct (pattern_strings tbl' meth))"
proof -
  let ?cs = "[CallHandle ''GET'' (literal_pattern ''/a'' [''a''] []) (1::nat),
              CallHandle ''GET'' (literal_pattern ''/b'' [''b''] []) 2,
              CallDeregister ''GET'' (literal_pattern ''/a'' [''a''] []),
              CallHandle ''GET'' (literal_pattern ''/a'' [''a''] []) 3]"
  have start: "\<forall>meth. distinct (pattern_strings (Map.empty :: nat handlers) meth)"
    by (simp add: pattern_strings_def lookup_def)
  have new: "registers_new ?cs Map.empty"
    by (simp add: HandlerDeregister_eq Handle_def pattern_strings_def lookup_def
        literal_pattern_def)
  show ?thesis
    using no_duplicates_registering_new [OF start new] .
qed

text \<open>
  C2 as it is written fails: registering the same pattern twice under GET leaves two
  bindings with the pattern string \<open>/a\<close>.
\<close>

theorem Handle_twice_counterexample:
  "run_calls [CallHandle ''GET'' (literal_pattern ''/a'' [''a''] []) (1::nat),
              CallHandle ''GET'' (literal_pattern ''/a'' [''a''] []) 2] Map.empty
     = Some (Handle ''GET'' (literal_pattern ''/a'' [''a''] []) 2
              (Handle ''GET'' (literal_pattern ''/a'' [''a''] []) 1 Map.empty))
   \<and> pattern_strings
        (Handle ''GET'' (literal_pattern ''/a'' [''a''] []) (2::nat)
          (Handle ''GET'' (literal_pattern ''/a'' [''a''] []) 1 Map.empty)) ''GET''
       = [''/a'', ''/a'']
   \<and> \<not> distinct (pattern_strings
        (Handle ''GET'' (literal_pattern ''/a'' [''a''] []) (2::nat)
          (Handle ''GET'' (literal_pattern ''/a'' [''a''] []) 1 Map.empty)) ''GET'')"
  by (simp add: pattern_strings_Handle pattern_strings_empty literal_pattern_def)

section \<open>Dispatch\<close>







text \<open>
  C5 (verb disambiguation) does not hold for a candidate that comes after another one
  whose verb was found on the last component. Under GET the pattern with verb \<open>1\<close> is
  scanned first: on the path \<open>/res:v:1\<close> its step overwrites the last component with
  \<open>res:v\<close> and the verb with \<open>1\<close>. The pattern with verb \<open>v:1\<close> comes next and no longer
  finds its suffix: its \<open>Match\<close> is called with the last component \<open>res:v\<close> and the verb
  \<open>1\<close>, not with \<open>res\<close> and \<open>v:1\<close>, and the request is answered NotFound.
\<close>

theorem verb_disambiguation_failing_input:
  "ServeHTTP (example_env False None) [''GET'']
     [''GET'' \<mapsto> [binding ''/foo:1'' [''foo''] ''1'' 1, binding ''/res:v:1'' [''res''] ''v:1'' 2]]
     (example_request ''GET'' ''/res:v:1'' [])
   = ([MatchCall ''/foo:1'' [''res:v''] ''1'', MatchCall ''/res:v:1'' [''res:v''] ''1''],
      RoutingError StatusNotFound)"
  by (simp add: ServeHTTP_def lookup_handlers_def method_override_def example_request_def
      example_env_def binding_def literal_pattern_def lookup_def HasPrefix_def
      strip_verb_def verb_index_def HasSuffix_def slice_def)




text \<open>
  C7 (method override), as amended. Take a request whose path starts with a slash and
  whose X-HTTP-Method-Override header is not empty. If the path-length-fallback condition
  holds, the method of the request becomes the upper-cased header value and the form is
  parsed first of all: on a parse error dispatch ends there with InvalidArgument and the
  text of the error, without any call of \<open>Match\<close> or of a handler; otherwise the lookup
  runs with the new method. If the condition does not hold, the lookup runs with the
  request as it came, and nothing is parsed before the first \<open>Match\<close>.
\<close>

theorem method_override_condition:
  assumes "HasPrefix (URLPath r) ''/''" and "MethodOverride r \<noteq> []"
  shows "(isPathLengthFallback e r \<longrightarrow>
            (case ParseForm e (r\<lparr>Method := ToUpper e (MethodOverride r)\<rparr>) of
               Some msg \<Rightarrow>
                 ServeHTTP e order tbl r
                   = ([ParseFormCall (r\<lparr>Method := ToUpper e (MethodOverride r)\<rparr>)],
                      InvalidArgument msg)
             | None \<Rightarrow>
                 ServeHTTP e order tbl r
                   = (ParseFormCall (r\<lparr>Method := ToUpper e (MethodOverride r)\<rparr>)
                        # fst (lookup_handlers e order tbl (r\<lparr>Method := ToUpper e (MethodOverride r)\<rparr>)
                                (Split (drop 1 (URLPath r)) CHR ''/'')),
                      snd (lookup_handlers e order tbl (r\<lparr>Method := ToUpper e (MethodOverride r)\<rparr>)
                                (Split (drop 1 (URLPath r)) CHR ''/'')))))
       \<and> (\<not> isPathLengthFallback e r \<longrightarrow>
            ServeHTTP e order tbl r
              = lookup_handlers e order tbl r (Split (drop 1 (URLPath r)) CHR ''/'')
            \<and> (fst (ServeHTTP e order tbl r) = []
                 \<or> is_match_call (hd (fst (ServeHTTP e order tbl r)))))"
proof (cases "isPathLengthFallback e r")
  case True
  then show ?thesis
    using assms by (simp add: ServeHTTP_def method_override_def Let_def split: option.splits prod.splits)
next
  case False
  then have "ServeHTTP e order tbl r
               = lookup_handlers e order tbl r (Split (drop 1 (URLPath r)) CHR ''/'')"
    using assms by (simp add: ServeHTTP_def method_override_def Let_def split: prod.splits)
  with False lookup_handlers_starts_with_match [of e order tbl r "Split (drop 1 (URLPath r)) CHR ''/''"]
  show ?thesis by simp
qed

theorem method_override_condition_witness:
  "ServeHTTP (example_env True (Some ''bad form'')) [''GET'', ''PUT'']
      [''PUT'' \<mapsto> [binding ''/a/b'' [''a'', ''b''] [] (1::nat)]]
      (example_request ''POST'' ''/a/b'' ''put'')
     = ([ParseFormCall (example_request ''PUT'' ''/a/b'' ''put'')], InvalidArgument ''bad form'')
   \<and> ServeHTTP (example_env True None) [''GET'', ''PUT'']
      [''PUT'' \<mapsto> [binding ''/a/b'' [''a'', ''b''] [] (1::nat)]]
      (example_request ''POST'' ''/a/b'' ''put'')
     = ([ParseFormCall (example_request ''PUT'' ''/a/b'' ''put''),
         MatchCall ''/a/b'' [''a'', ''b''] []],
        Invoked 1 (example_request ''PUT'' ''/a/b'' ''put'') [])
   \<and> ServeHTTP (example_env False None) [''GET'', ''PUT'']
      [''PUT'' \<mapsto> [binding ''/a/b'' [''a'', ''b''] [] (1::nat)]]
      (example_request ''POST'' ''/a/b'' ''put'')
     = ([MatchCall ''/a/b'' [''a'', ''b''] []], RoutingError StatusMethodNotAllowed)"
proof -
  let ?r = "example_request ''POST'' ''/a/b'' ''put''"
  let ?tbl = "[''PUT'' \<mapsto> [binding ''/a/b'' [''a'', ''b''] [] (1::nat)]]"
  have 1: "HasPrefix (URLPath ?r) ''/''"
    by (simp add: example_request_def HasPrefix_def)
  have 2: "MethodOverride ?r \<noteq> []"
    by (simp add: example_request_def)
  have up: "?r\<lparr>Method := ToUpper (example_env b p) (MethodOverride ?r)\<rparr>
              = example_request ''PUT'' ''/a/b'' ''put''" for b p
    by (simp add: example_request_def example_env_def)
  have lk: "lookup_handlers (example_env True None) [''GET'', ''PUT''] ?tbl
              (example_request ''PUT'' ''/a/b'' ''put'') (Split (drop 1 (URLPath ?r)) CHR ''/'')
            = ([MatchCall ''/a/b'' [''a'', ''b''] []],
               Invoked 1 (example_request ''PUT'' ''/a/b'' ''put'') [])"
    by (simp add: lookup_handlers_def example_request_def example_env_def lookup_def binding_def
        literal_pattern_def strip_verb_def verb_index_def HasSuffix_def)
  have lk': "lookup_handlers (example_env False None) [''GET'', ''PUT''] ?tbl
              ?r (Split (drop 1 (URLPath ?r)) CHR ''/'')
            = ([MatchCall ''/a/b'' [''a'', ''b''] []], RoutingError StatusMethodNotAllowed)"
    by (simp add: lookup_handlers_def example_request_def example_env_def lookup_def binding_def
        literal_pattern_def strip_verb_def verb_index_def HasSuffix_def)
  show ?thesis
    using method_override_condition [OF 1 2, of "example_env True (Some ''bad form'')" "[''GET'', ''PUT'']" ?tbl]
      method_override_condition [OF 1 2, of "example_env True None" "[''GET'', ''PUT'']" ?tbl]
      method_override_condition [OF 1 2, of "example_env False None" "[''GET'', ''PUT'']" ?tbl]
    unfolding up lk lk'
    by (simp add: example_env_def)
qed

text \<open>
  C7 as it is written fails for a path without a leading slash: the request is answered
  BadRequest at once; its method is not replaced and its form is not parsed, although it
  carries the override header and the path-length-fallback condition holds.
\<close>

theorem method_override_bad_path_counterexample:
  "ServeHTTP (example_env True None) [''PUT'']
     [''PUT'' \<mapsto> [binding ''/a/b'' [''a'', ''b''] [] (1::nat)]]
     (example_request ''POST'' ''a/b'' ''put'')
   = ([], RoutingError StatusBadRequest)"
  by (simp add: ServeHTTP_def example_request_def HasPrefix_def)

text \<open>
  C10 (stripped-component persistence), as amended. Let the candidates before \<open>x\<close> in
  the scan of the request's method have failed, leaving \<open>c0\<close> and \<open>v0\<close>, and let the
  verb of \<open>x\<close> be found on the last component of \<open>c0\<close> with something left before the
  colon. Then \<open>x\<close> is matched against the stripped components \<open>c'\<close> and its own verb
  \<open>v'\<close>, where the stripped last component, a colon and the verb make up the former last
  component. If this match fails and the scan ends without a result, leaving \<open>c2\<close> and
  \<open>v2\<close>, then every call of \<open>Match\<close> in the scan of the other methods gets exactly \<open>c2\<close>
  and \<open>v2\<close>; the last component of \<open>c2\<close> is shorter than the one \<open>x\<close> found, hence never
  the original one; and \<open>c2\<close> and \<open>v2\<close> are \<open>c'\<close> and \<open>v'\<close> when no later candidate of
  the scan has its own verb on the stripped component.
\<close>

theorem stripped_component_persists:
  assumes "HasPrefix (URLPath r) ''/''"
    and "method_override e r = (tr0, Inr r')"
    and "lookup tbl (Method r') = pre @ x # rest"
    and "primary_scan r' pre (Split (drop 1 (URLPath r)) CHR ''/'') [] = (tr1, Continue c0 v0)"
    and "Verb (pat x) \<noteq> []" and "HasSuffix (last c0) (CHR '':'' # Verb (pat x))"
    and "strip_verb (Verb (pat x)) c0 v0 = Args c' v'"
    and "Match (pat x) c' v' = None"
    and "primary_scan r' (lookup tbl (Method r')) (Split (drop 1 (URLPath r)) CHR ''/'') []
           = (trp, Continue c2 v2)"
  shows "v' = Verb (pat x) \<and> butlast c' = butlast c0 \<and> last c' @ CHR '':'' # v' = last c0
       \<and> MatchCall (String (pat x)) c' v' \<in> set trp
       \<and> length (last c2) < length (last c0)
       \<and> (\<exists>trf. fst (ServeHTTP e order tbl r) = tr0 @ trp @ trf
            \<and> (\<forall>ev \<in> set trf. ev = ParseFormCall r' \<or> (\<exists>s. ev = MatchCall s c2 v2)))
       \<and> ((\<forall>y \<in> set rest. \<not> (Verb (pat y) \<noteq> []
                                 \<and> HasSuffix (last c') (CHR '':'' # Verb (pat y))))
            \<longrightarrow> c2 = c' \<and> v2 = v')"
proof -
  let ?cs = "Split (drop 1 (URLPath r)) CHR ''/''"
  have ne0: "c0 \<noteq> []"
    using assms(7) by (auto simp: strip_verb_def)
  obtain p where lc: "last c0 = p @ CHR '':'' # Verb (pat x)"
    using assms(6) by (auto simp: HasSuffix_iff)
  have c': "c' = butlast c0 @ [p]" and v': "v' = Verb (pat x)"
    using assms(5,6,7) ne0 lc by (auto simp: strip_verb_eq split: if_splits)
  have shape: "v' = Verb (pat x) \<and> butlast c' = butlast c0 \<and> last c' @ CHR '':'' # v' = last c0"
    using c' v' lc by simp
  have ne: "c' \<noteq> []" and short: "length (last c') < length (last c0)"
    using c' lc by simp_all
  obtain trr res where rest: "primary_scan r' rest c' v' = (trr, res)"
    by (cases "primary_scan r' rest c' v'")
  have "primary_scan r' (lookup tbl (Method r')) ?cs []
          = (tr1 @ MatchCall (String (pat x)) c' v' # trr, res)"
    using assms(3,4,7,8) rest by (simp add: primary_scan_append)
  with assms(9) have trp: "trp = tr1 @ MatchCall (String (pat x)) c' v' # trr"
    and res: "res = Continue c2 v2"
    by simp_all
  have called: "MatchCall (String (pat x)) c' v' \<in> set trp"
    using trp by simp
  have short2: "length (last c2) < length (last c0)"
    using primary_scan_bound [OF ne order.refl, of r' rest v'] rest res short by simp
  let ?F = "fallback_handlers e r' (other_bindings tbl (Method r') order) c2 v2"
  have tr: "fst (ServeHTTP e order tbl r) = tr0 @ trp @ fst ?F"
    using ServeHTTP_lookup [OF assms(1,2), of order tbl]
      lookup_handlers_fallback [OF assms(9), of e order]
    by simp
  have fb: "\<forall>ev \<in> set (fst ?F). ev = ParseFormCall r' \<or> (\<exists>s. ev = MatchCall s c2 v2)"
    using fallback_handlers_trace by blast
  have exact: "c2 = c' \<and> v2 = v'"
    if "\<forall>y \<in> set rest. \<not> (Verb (pat y) \<noteq> [] \<and> HasSuffix (last c') (CHR '':'' # Verb (pat y)))"
    using primary_scan_unstripped [OF ne that, of r' v'] rest res by simp
  from shape called short2 tr fb exact show ?thesis by blast
qed

theorem stripped_component_persists_witness:
  "\<exists>trf. fst (ServeHTTP (example_env False None) [''GET'', ''POST'']
                 [''GET'' \<mapsto> [binding ''/x:c'' [''x''] ''c'' (1::nat), binding ''/z'' [''z''] [] 3],
                  ''POST'' \<mapsto> [binding ''/w'' [''w''] [] 4]]
                 (example_request ''GET'' ''/a:b:c'' []))
            = [MatchCall ''/x:c'' [''a:b''] ''c'', MatchCall ''/z'' [''a:b''] ''c''] @ trf
        \<and> (\<forall>ev \<in> set trf. ev = ParseFormCall (example_request ''GET'' ''/a:b:c'' [])
                             \<or> (\<exists>s. ev = MatchCall s [''a:b''] ''c''))"
proof -
  let ?e = "example_env False None"
  let ?r = "example_request ''GET'' ''/a:b:c'' []"
  let ?x = "binding ''/x:c'' [''x''] ''c'' (1::nat)"
  let ?tbl = "[''GET'' \<mapsto> [?x, binding ''/z'' [''z''] [] 3],
               ''POST'' \<mapsto> [binding ''/w'' [''w''] [] 4]]"
  let ?trp = "[MatchCall ''/x:c'' [''a:b''] ''c'', MatchCall ''/z'' [''a:b''] ''c'']"
  have 1: "HasPrefix (URLPath ?r) ''/''"
    by (simp add: example_request_def HasPrefix_def)
  have 2: "method_override ?e ?r = ([], Inr ?r)"
    by (simp add: method_override_def example_request_def)
  have 3: "lookup ?tbl (Method ?r) = [] @ ?x # [binding ''/z'' [''z''] [] 3]"
    by (simp add: lookup_def example_request_def)
  have 4: "primary_scan ?r [] (Split (drop 1 (URLPath ?r)) CHR ''/'') []
             = ([], Continue [''a:b:c''] [])"
    by (simp add: example_request_def)
  have 5: "Verb (pat ?x) \<noteq> []"
    by (simp add: binding_def literal_pattern_def)
  have 6: "HasSuffix (last [''a:b:c'']) (CHR '':'' # Verb (pat ?x))"
    by (simp add: binding_def literal_pattern_def HasSuffix_def)
  have 7: "strip_verb (Verb (pat ?x)) [''a:b:c''] [] = Args [''a:b''] ''c''"
    by (simp add: binding_def literal_pattern_def strip_verb_def verb_index_def HasSuffix_def
        slice_def)
  have 8: "Match (pat ?x) [''a:b''] ''c'' = None"
    by (simp add: binding_def literal_pattern_def)
  have 9: "primary_scan ?r (lookup ?tbl (Method ?r)) (Split (drop 1 (URLPath ?r)) CHR ''/'') []
             = (?trp, Continue [''a:b''] ''c'')"
    by (simp add: example_request_def lookup_def binding_def literal_pattern_def
        strip_verb_def verb_index_def HasSuffix_def slice_def)
  from stripped_component_persists [OF 1 2 3 4 5 6 7 8 9, of "[''GET'', ''POST'']"]
  obtain trf where
    "fst (ServeHTTP ?e [''GET'', ''POST''] ?tbl ?r) = [] @ ?trp @ trf"
    and "\<forall>ev \<in> set trf. ev = ParseFormCall ?r \<or> (\<exists>s. ev = MatchCall s [''a:b''] ''c'')"
    by blast
  then show ?thesis by auto
qed

text \<open>
  C10 as it is written fails when a later candidate finds its own verb on the component
  already stripped. On the path \<open>/a:b:c\<close> the candidate with verb \<open>c\<close> leaves \<open>a:b\<close> and
  \<open>c\<close>; the next one, with verb \<open>b\<close>, strips again, and from then on \<open>Match\<close> is called
  with the last component \<open>a\<close> and the verb \<open>b\<close>, in the scan of POST too. It also fails
  when nothing is left before the colon: on the path \<open>/:v\<close> the verb \<open>v\<close> is found, but
  nothing is overwritten and \<open>Match\<close> is not called; the request is answered NotFound.
\<close>

theorem stripped_twice_counterexample:
  "ServeHTTP (example_env False None) [''GET'', ''POST'']
     [''GET'' \<mapsto> [binding ''/x:c'' [''x''] ''c'' (1::nat), binding ''/y:b'' [''y''] ''b'' 2,
                   binding ''/z'' [''z''] [] 3],
      ''POST'' \<mapsto> [binding ''/w'' [''w''] [] 4]]
     (example_request ''GET'' ''/a:b:c'' [])
   = ([MatchCall ''/x:c'' [''a:b''] ''c'', MatchCall ''/y:b'' [''a''] ''b'',
       MatchCall ''/z'' [''a''] ''b'', MatchCall ''/w'' [''a''] ''b''],
      RoutingError StatusNotFound)
   \<and> ServeHTTP (example_env False None) [''GET'']
     [''GET'' \<mapsto> [binding ''/x:v'' [''x''] ''v'' (1::nat)]]
     (example_request ''GET'' ''/:v'' [])
   = ([], RoutingError StatusNotFound)"
  by (simp add: ServeHTTP_def lookup_handlers_def method_override_def example_request_def
      example_env_def binding_def literal_pattern_def lookup_def HasPrefix_def
      strip_verb_def verb_index_def HasSuffix_def slice_def)

end
